theory Spec2Isabelle
  imports Main "HOL-Library.Word" "HOL-Library.Signed_Division"
begin

unbundle bit_operations_syntax

section \<open>velox/common/memory/MemoryPool.cpp\<close>

text \<open>
  A shallow embedding of the memory pool of \<^verbatim>\<open>velox/common/memory/MemoryPool.cpp\<close>.
  \<^item> \<^verbatim>\<open>size_t\<close> is a 64-bit word: unsigned arithmetic wraps.
  \<^item> \<^verbatim>\<open>int64_t\<close> byte counts are \<open>int\<close>. Signed overflow is undefined in C++, so the
    model speaks about the executions in which no intermediate byte count leaves the
    64-bit range. The remainder \<^verbatim>\<open>%\<close> truncates towards zero (\<open>smod\<close>).
  \<^item> Exceptions are values: an operation returns an outcome together with the state at the
    moment it returned or threw, so that what a failed call leaves behind is visible.
  \<^item> The classes the file calls but does not define (the usage tracker, the memory
    manager, the local usage counters, the alignment check) are modelled from the
    specification; the two permission checks declared in the header are parameters.
\<close>

subsection \<open>getPreferredSize\<close>




subsection \<open>Errors and outcomes\<close>

datatype Kind = kLeaf | kAggregate

text \<open>
  The failures of the file, named as the specification names them. \<open>MemCapExceeded\<close> is
  \<^verbatim>\<open>VELOX_MEM_MANAGER_CAP_EXCEEDED(cap)\<close>, whose message holds \<^verbatim>\<open>cap / 1024 / 1024\<close>;
  \<open>MemAllocError\<close> is \<^verbatim>\<open>VELOX_MEM_ALLOC_ERROR\<close> with the pieces of its message: the
  function name, the numbers formatted into it, and the pool's \<^verbatim>\<open>toString()\<close>.
\<close>

datatype error =
    ConfigurationError
  | DuplicateChild string string
  | ManagementError
  | AllocationNotPermitted
  | TrackerCapExceeded
  | MemCapExceeded int
  | MemAllocError string "int list" string
  | InvariantViolation
  | DanglingPointer

datatype 'a outcome = Threw error | Returned 'a

subsection \<open>Collaborators modelled from the specification\<close>

text \<open>
  Modelled from the spec: the class \<^verbatim>\<open>MemoryManager\<close> (the specification's QuotaManager,
  velox/common/memory/Memory.h) is not part of the source at hand. It holds the fixed quota
  and the bytes in use. \<open>reserve\<close> succeeds iff \<open>used + size \<le> quota\<close>; \<open>release\<close> subtracts
  the size from \<open>used\<close>, and \<open>used\<close> going negative is an invariant violation.

  What a denied \<open>reserve\<close> leaves behind is taken from the way the source uses it. After a
  denial \<^verbatim>\<open>MemoryPoolImpl::reserve\<close> calls \<^verbatim>\<open>release(size)\<close>, which begins with
  \<^verbatim>\<open>memoryManager_->release(size)\<close>, and its note says that between the two calls the
  aggregates can only be inflated. The specification asks the same of the pool: \<open>used\<close> is the
  same before and after a failed reservation, and the rollback never reports more free
  capacity than there is. So \<open>reserve\<close> adds the size and then compares with the quota, and
  the size of a denied reservation stays counted until \<open>release\<close> takes it back. (A manager
  whose denied \<open>reserve\<close> left \<open>used\<close> as it was, as the specification words it for the
  manager alone, would have the release after a denial take away bytes that were never
  added.)
\<close>

record MemoryManager =
  quota :: int
  used :: int

definition MemoryManager_reserve :: "int \<Rightarrow> MemoryManager \<Rightarrow> bool \<times> MemoryManager" where
  "MemoryManager_reserve sz m =
     (let m' = m\<lparr>used := used m + sz\<rparr>
      in (used m' \<le> quota m', m'))"

definition MemoryManager_release :: "int \<Rightarrow> MemoryManager \<Rightarrow> unit outcome \<times> MemoryManager" where
  "MemoryManager_release sz m =
     (let m' = m\<lparr>used := used m - sz\<rparr>
      in if used m' < 0 then (Threw InvariantViolation, m') else (Returned (), m'))"

definition getMemoryQuota :: "MemoryManager \<Rightarrow> int" where
  "getMemoryQuota m = quota m"

text \<open>
  Modelled from the spec: the class \<^verbatim>\<open>MemoryUsageTracker\<close> is not part of the source at
  hand. A tracker has the four counters, an optional capacity and an optional parent.
  \<open>update\<close> fails without a change when \<open>currentBytes + delta\<close> would exceed the capacity;
  otherwise it commits (\<open>cumulativeBytes\<close> and \<open>numAllocs\<close> only grow, for a positive
  delta; \<open>maxBytes\<close> is the high-water mark) and then hands the same delta to the parent,
  whose failure reaches the caller with the local commit already applied. A tracker is held
  together with its chain of ancestors: the operations of one pool are followed, not the
  sharing of an ancestor between sibling pools.
\<close>

datatype MemoryUsageTracker = MemoryUsageTracker
  (currentBytes: int) (maxBytes: int) (cumulativeBytes: int) (numAllocs: int)
  (capacity: "int option") (parentTracker: "MemoryUsageTracker option")

fun update :: "int \<Rightarrow> MemoryUsageTracker \<Rightarrow> unit outcome \<times> MemoryUsageTracker" where
  "update delta (MemoryUsageTracker cur mx cum n cap par) =
     (if (case cap of None \<Rightarrow> False | Some c \<Rightarrow> c < cur + delta)
      then (Threw TrackerCapExceeded, MemoryUsageTracker cur mx cum n cap par)
      else
        let cur' = cur + delta;
            cum' = (if 0 < delta then cum + delta else cum);
            n' = (if 0 < delta then n + 1 else n);
            mx' = max mx cur'
        in case par of
             None \<Rightarrow> (Returned (), MemoryUsageTracker cur' mx' cum' n' cap None)
           | Some p \<Rightarrow>
               (case update delta p of
                  (r, p') \<Rightarrow> (r, MemoryUsageTracker cur' mx' cum' n' cap (Some p'))))"

definition MemoryUsageTracker_create :: "int option \<Rightarrow> MemoryUsageTracker" where
  "MemoryUsageTracker_create cap = MemoryUsageTracker 0 0 0 0 cap None"

definition MemoryUsageTracker_addChild :: "bool \<Rightarrow> MemoryUsageTracker \<Rightarrow> MemoryUsageTracker" where
  "MemoryUsageTracker_addChild leaf t = MemoryUsageTracker 0 0 0 0 None (Some t)"

text \<open>The current bytes of a tracker and of each of its ancestors, nearest first.\<close>

fun trackerBytes :: "MemoryUsageTracker \<Rightarrow> int list" where
  "trackerBytes (MemoryUsageTracker cur mx cum n cap par) =
     cur # (case par of None \<Rightarrow> [] | Some p \<Rightarrow> trackerBytes p)"


text \<open>
  Modelled from the spec: the class \<^verbatim>\<open>MemoryUsage\<close> is not part of the source at hand. It
  holds the current bytes and their high-water mark; \<open>incrementCurrentBytes\<close> adds to the
  current bytes and raises the high-water mark to them.
\<close>

record MemoryUsage =
  usageCurrentBytes :: int
  usageMaxBytes :: int

definition incrementCurrentBytes :: "int \<Rightarrow> MemoryUsage \<Rightarrow> MemoryUsage" where
  "incrementCurrentBytes sz u =
     u\<lparr>usageCurrentBytes := usageCurrentBytes u + sz,
       usageMaxBytes := max (usageMaxBytes u) (usageCurrentBytes u + sz)\<rparr>"

text \<open>
  Modelled from the spec: \<^verbatim>\<open>MemoryAllocator::alignmentCheck\<close> is not part of the source at
  hand. The specification rejects, at construction, an alignment that is not a power of two
  or does not divide the requested size.
\<close>

definition alignmentCheck :: "64 word \<Rightarrow> 16 word \<Rightarrow> unit outcome" where
  "alignmentCheck allocateBytes alignmentBytes =
     (if alignmentBytes \<noteq> 0 \<and> alignmentBytes AND (alignmentBytes - 1) = 0 \<and>
         unat allocateBytes mod unat alignmentBytes = 0
      then Returned () else Threw ConfigurationError)"

subsection \<open>The pool object\<close>

type_synonym addr = nat

type_synonym ptr = nat

definition nullptr :: ptr where
  "nullptr = 0"

record Options =
  optAlignment :: "16 word"
  optCapacity :: "int option"

text \<open>
  The fields of \<^verbatim>\<open>MemoryPool\<close> and of \<^verbatim>\<open>MemoryPoolImpl\<close>, which extends it, without the
  trailing underscore of the C++ member names. \<open>parent\<close> is the strong reference to the
  parent, \<open>children\<close> the registry of weak references by name; both hold addresses of pool
  objects.
  \<open>destructionCb\<close> is the optional callback, code of the caller: it is given the address of
  the pool and returns or throws; what it does outside the pool objects is not followed.
\<close>

record MemoryPool =
  name :: string
  kind :: Kind
  alignment :: "16 word"
  parent :: "addr option"
  children :: "string \<rightharpoonup> addr"

record MemoryPoolImpl = MemoryPool +
  memoryUsageTracker :: MemoryUsageTracker
  destructionCb :: "(addr \<Rightarrow> unit outcome) option"
  localMemoryUsage :: MemoryUsage
  subtreeMemoryUsage :: MemoryUsage

text \<open>The pool seen through its base class.\<close>

definition asMemoryPool :: "MemoryPoolImpl \<Rightarrow> MemoryPool" where
  "asMemoryPool p =
     \<lparr>name = name p, kind = kind p, alignment = alignment p, parent = parent p,
      children = children p\<rparr>"

text \<open>
  What the file takes from outside: \<^verbatim>\<open>checkPoolManagement\<close> and \<^verbatim>\<open>checkMemoryAllocation\<close>
  are members of \<^verbatim>\<open>MemoryPool\<close> declared in the header, which is not part of the source at
  hand; they are parameters here, predicates on the base-class part of the pool (the
  specification names the failure of the first ManagementError).
  \<open>leakCheckEnabled\<close> is the flag \<^verbatim>\<open>FLAGS_velox_memory_leak_check_enabled\<close>;
  \<open>allocatorKind\<close> is what \<^verbatim>\<open>MemoryAllocator::kindString(allocator_->kind())\<close> prints.
\<close>

record env =
  poolManagementAllowed :: "MemoryPool \<Rightarrow> bool"
  memoryAllocationAllowed :: "MemoryPool \<Rightarrow> bool"
  leakCheckEnabled :: bool
  allocatorKind :: string

definition checkPoolManagement :: "env \<Rightarrow> MemoryPoolImpl \<Rightarrow> unit outcome" where
  "checkPoolManagement e p =
     (if poolManagementAllowed e (asMemoryPool p) then Returned () else Threw ManagementError)"

definition checkMemoryAllocation :: "env \<Rightarrow> MemoryPoolImpl \<Rightarrow> unit outcome" where
  "checkMemoryAllocation e p =
     (if memoryAllocationAllowed e (asMemoryPool p) then Returned ()
      else Threw AllocationNotPermitted)"

fun kindString :: "Kind \<Rightarrow> string" where
  "kindString kLeaf = ''LEAF''"
| "kindString kAggregate = ''AGGREGATE''"

definition toString :: "env \<Rightarrow> MemoryPoolImpl \<Rightarrow> string" where
  "toString e p =
     ''Memory Pool['' @ name p @ '' '' @ kindString (kind p) @ '' '' @ allocatorKind e @ '']''"

subsection \<open>Accounting: reserve, release, allocate, free, reallocate\<close>

text \<open>
  The allocator is an external collaborator. What the pool asks of it is kept as a log of
  calls; what \<^verbatim>\<open>allocateBytes\<close> answers is an argument of the operation that calls it
  (\<open>nullptr\<close> for a failure). \<^verbatim>\<open>memcpy\<close> is logged in the same way.
\<close>

datatype AllocatorCall =
    allocateBytes int "16 word"
  | freeBytes ptr int
  | memcpy ptr ptr int

text \<open>
  An accounting operation works on one pool object together with the two objects it points
  to: the memory manager and the allocator.
\<close>

record poolState =
  pool :: MemoryPoolImpl
  memoryManager :: MemoryManager
  allocator :: "AllocatorCall list"

text \<open>
  \<^verbatim>\<open>sizeAlign\<close> computes in \<^verbatim>\<open>int64_t\<close>. \<open>sizeAlign\<close> below is its value as long as the sum
  \<^verbatim>\<open>size + alignment_\<close> fits in 64 bits, which is what \<open>alignable\<close> says of a size (it also
  keeps the size above the least 64-bit value, whose negation in \<^verbatim>\<open>release\<close> does not fit).
  Beyond that the sum overflows; \<open>sizeAlign64\<close> is the same computation with the wrap-around
  of the machine, and the two agree on every alignable size.
\<close>

definition sizeAlign :: "MemoryPoolImpl \<Rightarrow> int \<Rightarrow> int" where
  "sizeAlign p sz =
     (let remainder = sz smod uint (alignment p)
      in if remainder = 0 then sz else sz + uint (alignment p) - remainder)"

definition int64 :: "int \<Rightarrow> int" where
  "int64 x = signed_take_bit 63 x"

definition sizeAlign64 :: "MemoryPoolImpl \<Rightarrow> int \<Rightarrow> int" where
  "sizeAlign64 p sz =
     (let remainder = sz smod uint (alignment p)
      in if remainder = 0 then sz else int64 (int64 (sz + uint (alignment p)) - remainder))"


definition release :: "env \<Rightarrow> int \<Rightarrow> poolState \<Rightarrow> unit outcome \<times> poolState" where
  "release e sz s =
     (case checkMemoryAllocation e (pool s) of
        Threw x \<Rightarrow> (Threw x, s)
      | Returned _ \<Rightarrow>
          (case MemoryManager_release sz (memoryManager s) of
             (Threw x, m') \<Rightarrow> (Threw x, s\<lparr>memoryManager := m'\<rparr>)
           | (Returned _, m') \<Rightarrow>
               let s1 = s\<lparr>memoryManager := m'\<rparr>;
                   s2 = s1\<lparr>pool := (pool s1)\<lparr>localMemoryUsage :=
                          incrementCurrentBytes (- sz) (localMemoryUsage (pool s1))\<rparr>\<rparr>
               in (case update (- sz) (memoryUsageTracker (pool s2)) of
                     (r, t') \<Rightarrow> (r, s2\<lparr>pool := (pool s2)\<lparr>memoryUsageTracker := t'\<rparr>\<rparr>))))"

definition reserve :: "env \<Rightarrow> int \<Rightarrow> poolState \<Rightarrow> unit outcome \<times> poolState" where
  "reserve e sz s =
     (case checkMemoryAllocation e (pool s) of
        Threw x \<Rightarrow> (Threw x, s)
      | Returned _ \<Rightarrow>
          (case update sz (memoryUsageTracker (pool s)) of
             (Threw x, t') \<Rightarrow> (Threw x, s\<lparr>pool := (pool s)\<lparr>memoryUsageTracker := t'\<rparr>\<rparr>)
           | (Returned _, t') \<Rightarrow>
               let s1 = s\<lparr>pool := (pool s)\<lparr>memoryUsageTracker := t'\<rparr>\<rparr>;
                   s2 = s1\<lparr>pool := (pool s1)\<lparr>localMemoryUsage :=
                          incrementCurrentBytes sz (localMemoryUsage (pool s1))\<rparr>\<rparr>
               in case MemoryManager_reserve sz (memoryManager s2) of
                    (success, m') \<Rightarrow>
                      let s3 = s2\<lparr>memoryManager := m'\<rparr>
                      in if \<not> success
                         then (case release e sz s3 of
                                 (Threw x, s4) \<Rightarrow> (Threw x, s4)
                               | (Returned _, s4) \<Rightarrow>
                                   (Threw (MemCapExceeded
                                      (getMemoryQuota (memoryManager s4) sdiv 1024 sdiv 1024)), s4))
                         else (Returned (), s3)))"

definition allocate :: "env \<Rightarrow> int \<Rightarrow> ptr \<Rightarrow> poolState \<Rightarrow> ptr outcome \<times> poolState" where
  "allocate e sz buffer s =
     (case checkMemoryAllocation e (pool s) of
        Threw x \<Rightarrow> (Threw x, s)
      | Returned _ \<Rightarrow>
          (let alignedSize = sizeAlign (pool s) sz
           in (case reserve e alignedSize s of
                 (Threw x, s1) \<Rightarrow> (Threw x, s1)
               | (Returned _, s1) \<Rightarrow>
                   (let s2 = s1\<lparr>allocator :=
                              allocator s1 @ [allocateBytes alignedSize (alignment (pool s1))]\<rparr>
                    in if buffer = nullptr
                       then (case release e alignedSize s2 of
                               (Threw x, s3) \<Rightarrow> (Threw x, s3)
                             | (Returned _, s3) \<Rightarrow>
                                 (Threw (MemAllocError ''allocate'' [sz] (toString e (pool s3))),
                                  s3))
                       else (Returned buffer, s2)))))"

definition free :: "env \<Rightarrow> ptr \<Rightarrow> int \<Rightarrow> poolState \<Rightarrow> unit outcome \<times> poolState" where
  "free e p sz s =
     (case checkMemoryAllocation e (pool s) of
        Threw x \<Rightarrow> (Threw x, s)
      | Returned _ \<Rightarrow>
          let alignedSize = sizeAlign (pool s) sz;
              s1 = s\<lparr>allocator := allocator s @ [freeBytes p alignedSize]\<rparr>
          in release e alignedSize s1)"

definition reallocate ::
  "env \<Rightarrow> ptr \<Rightarrow> int \<Rightarrow> int \<Rightarrow> ptr \<Rightarrow> poolState \<Rightarrow> ptr outcome \<times> poolState" where
  "reallocate e p sz newSize newP s =
     (case checkMemoryAllocation e (pool s) of
        Threw x \<Rightarrow> (Threw x, s)
      | Returned _ \<Rightarrow>
          (let alignedSize = sizeAlign (pool s) sz;
               alignedNewSize = sizeAlign (pool s) newSize
           in (case reserve e alignedNewSize s of
                 (Threw x, s1) \<Rightarrow> (Threw x, s1)
               | (Returned _, s1) \<Rightarrow>
                   (let s2 = s1\<lparr>allocator :=
                              allocator s1 @ [allocateBytes alignedNewSize (alignment (pool s1))]\<rparr>
                    in if newP = nullptr
                       then (case free e p alignedSize s2 of
                               (Threw x, s3) \<Rightarrow> (Threw x, s3)
                             | (Returned _, s3) \<Rightarrow>
                                 (case release e alignedNewSize s3 of
                                    (Threw x, s4) \<Rightarrow> (Threw x, s4)
                                  | (Returned _, s4) \<Rightarrow>
                                      (Threw (MemAllocError ''reallocate'' [newSize, sz]
                                         (toString e (pool s4))), s4)))
                       else if p = nullptr then (Returned newP, s2)
                       else
                         (let s3 = s2\<lparr>allocator :=
                                    allocator s2 @ [memcpy newP p (min sz newSize)]\<rparr>
                          in (case free e p alignedSize s3 of
                                (Threw x, s4) \<Rightarrow> (Threw x, s4)
                              | (Returned _, s4) \<Rightarrow> (Returned newP, s4)))))))"

definition getAggregateBytes :: "MemoryPoolImpl \<Rightarrow> int" where
  "getAggregateBytes p =
     usageCurrentBytes (localMemoryUsage p) + usageCurrentBytes (subtreeMemoryUsage p)"

definition getCurrentBytes :: "MemoryPoolImpl \<Rightarrow> int" where
  "getCurrentBytes p = getAggregateBytes p"

text \<open>
  The usage a caller can inspect after a call: what \<^verbatim>\<open>getCurrentBytes\<close> returns, the local
  current bytes, the current bytes of the tracker and of its ancestors, and the bytes the
  memory manager counts as used.
\<close>

definition usage :: "poolState \<Rightarrow> int \<times> int \<times> int list \<times> int" where
  "usage s =
     (getCurrentBytes (pool s),
      usageCurrentBytes (localMemoryUsage (pool s)),
      trackerBytes (memoryUsageTracker (pool s)),
      used (memoryManager s))"

text \<open>The usage \<open>u\<close> moved by \<open>d\<close> bytes in every counter.\<close>

fun shifted :: "int \<Rightarrow> int \<times> int \<times> int list \<times> int \<Rightarrow> int \<times> int \<times> int list \<times> int" where
  "shifted d (agg, loc, trk, usd) = (agg + d, loc + d, map (\<lambda>c. c + d) trk, usd + d)"

subsection \<open>Sequences of operations\<close>

datatype operation =
    Reserve int
  | Release int
  | Allocate int ptr
  | Free ptr int

fun applyOp :: "env \<Rightarrow> operation \<Rightarrow> poolState \<Rightarrow> unit outcome \<times> poolState" where
  "applyOp e (Reserve sz) s = reserve e sz s"
| "applyOp e (Release sz) s = release e sz s"
| "applyOp e (Allocate sz buffer) s =
     (case allocate e sz buffer s of
        (Threw x, s') \<Rightarrow> (Threw x, s')
      | (Returned _, s') \<Rightarrow> (Returned (), s'))"
| "applyOp e (Free p sz) s = free e p sz s"

text \<open>Operations run in order; the first one that throws ends the run.\<close>

fun run :: "env \<Rightarrow> operation list \<Rightarrow> poolState \<Rightarrow> unit outcome \<times> poolState" where
  "run e [] s = (Returned (), s)"
| "run e (x # xs) s =
     (case applyOp e x s of
        (Threw err, s') \<Rightarrow> (Threw err, s')
      | (Returned _, s') \<Rightarrow> run e xs s')"

text \<open>
  A sequence of matched pairs: every reserve is followed, somewhere later, by its own
  release of the same size, and every allocate that got a buffer by its own free of that
  buffer with the same size; nothing is released or freed that was not taken before.
\<close>

function matched :: "operation list \<Rightarrow> bool" where
  "matched [] = True"
| "matched (Reserve sz # xs) =
     (if Release sz \<in> set xs then matched (remove1 (Release sz) xs) else False)"
| "matched (Allocate sz buffer # xs) =
     (if Free buffer sz \<in> set xs then matched (remove1 (Free buffer sz) xs) else False)"
| "matched (Release sz # xs) = False"
| "matched (Free p sz # xs) = False"
  by pat_completeness auto
termination
  by (relation "measure length") (auto simp: length_remove1 less_Suc_eq_le)

subsection \<open>The pool tree: construction, addChild, dropChild, destruction\<close>

text \<open>
  Pool objects live in a heap, a map from addresses, because a tree operation touches two
  objects: the pool and its parent or child. Reference counting is not modelled: the
  destructor is an operation of its own, run when the last strong reference goes away.
\<close>

type_synonym heap = "addr \<rightharpoonup> MemoryPoolImpl"

definition MemoryPool_ctor :: "string \<Rightarrow> Kind \<Rightarrow> addr option \<Rightarrow> Options \<Rightarrow> MemoryPool outcome" where
  "MemoryPool_ctor nm knd par options =
     (case alignmentCheck 0 (optAlignment options) of
        Threw x \<Rightarrow> Threw x
      | Returned _ \<Rightarrow>
          if \<not> (par \<noteq> None \<or> knd = kAggregate) then Threw InvariantViolation
          else Returned \<lparr>name = nm, kind = knd, alignment = optAlignment options,
                          parent = par, children = Map.empty\<rparr>)"

definition MemoryPoolImpl_ctor ::
  "string \<Rightarrow> Kind \<Rightarrow> addr option \<Rightarrow> (addr \<Rightarrow> unit outcome) option \<Rightarrow> Options \<Rightarrow> heap \<Rightarrow>
     MemoryPoolImpl outcome" where
  "MemoryPoolImpl_ctor nm knd par cb options h =
     (case MemoryPool_ctor nm knd par options of
        Threw x \<Rightarrow> Threw x
      | Returned b \<Rightarrow>
          (case (case parent b of
                   None \<Rightarrow> Some (MemoryUsageTracker_create (optCapacity options))
                 | Some a \<Rightarrow>
                     (case h a of
                        None \<Rightarrow> None
                      | Some pp \<Rightarrow>
                          Some (MemoryUsageTracker_addChild (knd = kLeaf) (memoryUsageTracker pp)))) of
             None \<Rightarrow> Threw DanglingPointer
           | Some t \<Rightarrow>
               Returned \<lparr>name = name b, kind = kind b, alignment = alignment b,
                         parent = parent b, children = children b,
                         memoryUsageTracker = t, destructionCb = cb,
                         localMemoryUsage = \<lparr>usageCurrentBytes = 0, usageMaxBytes = 0\<rparr>,
                         subtreeMemoryUsage = \<lparr>usageCurrentBytes = 0, usageMaxBytes = 0\<rparr>\<rparr>))"

definition genChild :: "addr \<Rightarrow> string \<Rightarrow> Kind \<Rightarrow> heap \<Rightarrow> MemoryPoolImpl outcome" where
  "genChild this nm knd h =
     (case h this of
        None \<Rightarrow> Threw DanglingPointer
      | Some p \<Rightarrow>
          MemoryPoolImpl_ctor nm knd (Some this) None
            \<lparr>optAlignment = alignment p, optCapacity = None\<rparr> h)"

text \<open>
  \<open>newAddr\<close> is the address \<^verbatim>\<open>std::make_shared\<close> gives the new object; it is in no use
  before the call.
\<close>

definition addChild :: "env \<Rightarrow> addr \<Rightarrow> string \<Rightarrow> Kind \<Rightarrow> addr \<Rightarrow> heap \<Rightarrow> addr outcome \<times> heap" where
  "addChild e this nm knd newAddr h =
     (case h this of
        None \<Rightarrow> (Threw DanglingPointer, h)
      | Some p \<Rightarrow>
          (case checkPoolManagement e p of
             Threw x \<Rightarrow> (Threw x, h)
           | Returned _ \<Rightarrow>
               if children p nm \<noteq> None then (Threw (DuplicateChild nm (toString e p)), h)
               else (case genChild this nm knd h of
                       Threw x \<Rightarrow> (Threw x, h)
                     | Returned child \<Rightarrow>
                         (Returned newAddr,
                          h(newAddr \<mapsto> child,
                            this \<mapsto> p\<lparr>children := (children p)(nm \<mapsto> newAddr)\<rparr>)))))"

definition dropChild :: "env \<Rightarrow> addr \<Rightarrow> addr \<Rightarrow> heap \<Rightarrow> unit outcome \<times> heap" where
  "dropChild e this child h =
     (case h this of
        None \<Rightarrow> (Threw DanglingPointer, h)
      | Some p \<Rightarrow>
          (case checkPoolManagement e p of
             Threw x \<Rightarrow> (Threw x, h)
           | Returned _ \<Rightarrow>
               (case h child of
                  None \<Rightarrow> (Threw DanglingPointer, h)
                | Some c \<Rightarrow>
                    (let ret = (if children p (name c) = None then 0 else 1 :: nat);
                         h' = h(this \<mapsto> p\<lparr>children := (children p)(name c := None)\<rparr>)
                     in if ret \<noteq> 1 then (Threw InvariantViolation, h')
                        else (Returned (), h')))))"

definition MemoryPoolImpl_dtor :: "env \<Rightarrow> addr \<Rightarrow> heap \<Rightarrow> unit outcome \<times> heap" where
  "MemoryPoolImpl_dtor e this h =
     (case h this of
        None \<Rightarrow> (Threw DanglingPointer, h)
      | Some p \<Rightarrow>
          if leakCheckEnabled e \<and> 0 \<noteq> currentBytes (memoryUsageTracker p)
          then (Threw InvariantViolation, h)
          else (case destructionCb p of
                  None \<Rightarrow> (Returned (), h)
                | Some cb \<Rightarrow> (cb this, h)))"

definition MemoryPool_dtor :: "env \<Rightarrow> addr \<Rightarrow> heap \<Rightarrow> unit outcome \<times> heap" where
  "MemoryPool_dtor e this h =
     (case h this of
        None \<Rightarrow> (Threw DanglingPointer, h)
      | Some p \<Rightarrow>
          if children p \<noteq> Map.empty then (Threw InvariantViolation, h)
          else (case parent p of
                  None \<Rightarrow> (Returned (), h)
                | Some a \<Rightarrow> dropChild e a this h))"

text \<open>
  Destroying a pool object runs the destructor of \<^verbatim>\<open>MemoryPoolImpl\<close>, then the destructor
  of \<^verbatim>\<open>MemoryPool\<close>, and then the object is gone from the heap.
\<close>

definition destroy :: "env \<Rightarrow> addr \<Rightarrow> heap \<Rightarrow> unit outcome \<times> heap" where
  "destroy e this h =
     (case MemoryPoolImpl_dtor e this h of
        (Threw x, h1) \<Rightarrow> (Threw x, h1)
      | (Returned _, h1) \<Rightarrow>
          (case MemoryPool_dtor e this h1 of
             (Threw x, h2) \<Rightarrow> (Threw x, h2)
           | (Returned _, h2) \<Rightarrow> (Returned (), h2(this := None))))"

text \<open>Every pool without a parent is an aggregate pool.\<close>

definition rootsAggregate :: "heap \<Rightarrow> bool" where
  "rootsAggregate h = (\<forall>p \<in> ran h. parent p = None \<longrightarrow> kind p = kAggregate)"

text \<open>The bytes an operation adds to the usage of the pool when it succeeds.\<close>

fun opDelta :: "MemoryPoolImpl \<Rightarrow> operation \<Rightarrow> int" where
  "opDelta p (Reserve sz) = sz"
| "opDelta p (Release sz) = - sz"
| "opDelta p (Allocate sz buffer) = sizeAlign p sz"
| "opDelta p (Free q sz) = - sizeAlign p sz"

subsection \<open>A concrete tree\<close>

text \<open>
  An aggregate root pool at address 0 with one leaf child at address 1, both with
  alignment 16 and no capacity of their own. In the environment management is allowed on
  aggregate pools and allocation on leaf pools. \<open>exampleState q u\<close> is the leaf with a
  memory manager of quota \<open>q\<close> that counts \<open>u\<close> bytes as used; \<open>busyState q\<close> is the leaf
  after 32 bytes were allocated through it.
\<close>

definition exampleEnv :: "bool \<Rightarrow> env" where
  "exampleEnv leakCheck =
     \<lparr>poolManagementAllowed = (\<lambda>p. kind p = kAggregate),
      memoryAllocationAllowed = (\<lambda>p. kind p = kLeaf),
      leakCheckEnabled = leakCheck, allocatorKind = ''MALLOC''\<rparr>"

definition rootPool :: MemoryPoolImpl where
  "rootPool =
     \<lparr>name = ''root'', kind = kAggregate, alignment = 16, parent = None,
      children = [''leaf'' \<mapsto> 1],
      memoryUsageTracker = MemoryUsageTracker 0 0 0 0 None None, destructionCb = None,
      localMemoryUsage = \<lparr>usageCurrentBytes = 0, usageMaxBytes = 0\<rparr>,
      subtreeMemoryUsage = \<lparr>usageCurrentBytes = 0, usageMaxBytes = 0\<rparr>\<rparr>"

definition leafPool :: MemoryPoolImpl where
  "leafPool =
     \<lparr>name = ''leaf'', kind = kLeaf, alignment = 16, parent = Some 0,
      children = Map.empty,
      memoryUsageTracker =
        MemoryUsageTracker 0 0 0 0 None (Some (MemoryUsageTracker 0 0 0 0 None None)),
      destructionCb = None,
      localMemoryUsage = \<lparr>usageCurrentBytes = 0, usageMaxBytes = 0\<rparr>,
      subtreeMemoryUsage = \<lparr>usageCurrentBytes = 0, usageMaxBytes = 0\<rparr>\<rparr>"

definition busyPool :: MemoryPoolImpl where
  "busyPool =
     leafPool\<lparr>memoryUsageTracker :=
                 MemoryUsageTracker 32 32 32 1 None (Some (MemoryUsageTracker 32 32 32 1 None None)),
              localMemoryUsage := \<lparr>usageCurrentBytes = 32, usageMaxBytes = 32\<rparr>\<rparr>"

definition exampleHeap :: heap where
  "exampleHeap = [0 \<mapsto> rootPool, 1 \<mapsto> leafPool]"

definition busyHeap :: heap where
  "busyHeap = [0 \<mapsto> rootPool, 1 \<mapsto> busyPool]"

text \<open>The same two pools with the leaf missing from the registry of the root.\<close>

definition unregisteredHeap :: heap where
  "unregisteredHeap = [0 \<mapsto> rootPool\<lparr>children := Map.empty\<rparr>, 1 \<mapsto> leafPool]"

definition exampleState :: "int \<Rightarrow> int \<Rightarrow> poolState" where
  "exampleState q u =
     \<lparr>pool = leafPool, memoryManager = \<lparr>quota = q, used = u\<rparr>, allocator = []\<rparr>"

definition busyState :: "int \<Rightarrow> poolState" where
  "busyState q =
     \<lparr>pool = busyPool, memoryManager = \<lparr>quota = q, used = 32\<rparr>, allocator = []\<rparr>"

section \<open>Properties\<close>

subsection \<open>The rounding rule of getPreferredSize\<close>



lemma rev_upt_nth: "i < n \<Longrightarrow> rev [0..<n] ! i = n - 1 - i"
  by (simp add: rev_nth)















subsection \<open>The usage tracker and the alignment\<close>

lemma update_root:
  "update d (MemoryUsageTracker cur mx cum n cap None) =
     (if (case cap of None \<Rightarrow> False | Some c \<Rightarrow> c < cur + d)
      then (Threw TrackerCapExceeded, MemoryUsageTracker cur mx cum n cap None)
      else (Returned (),
            MemoryUsageTracker (cur + d) (max mx (cur + d))
              (if 0 < d then cum + d else cum) (if 0 < d then n + 1 else n) cap None))"
  by (simp add: Let_def)

lemma update_child:
  "update d (MemoryUsageTracker cur mx cum n cap (Some p)) =
     (if (case cap of None \<Rightarrow> False | Some c \<Rightarrow> c < cur + d)
      then (Threw TrackerCapExceeded, MemoryUsageTracker cur mx cum n cap (Some p))
      else (fst (update d p),
            MemoryUsageTracker (cur + d) (max mx (cur + d))
              (if 0 < d then cum + d else cum) (if 0 < d then n + 1 else n) cap
              (Some (snd (update d p)))))"
  by (simp add: Let_def split: prod.splits)

lemma update_returned:
  "update d t = (Returned (), t') \<Longrightarrow> trackerBytes t' = map (\<lambda>c. c + d) (trackerBytes t)"
proof (induction t arbitrary: t')
  case (MemoryUsageTracker cur mx cum n cap par)
  show ?case
  proof (cases par)
    case None
    with MemoryUsageTracker.prems show ?thesis
      by (auto simp: update_root simp del: update.simps split: if_splits)
  next
    case (Some p)
    obtain r p1 where u: "update d p = (r, p1)" by (cases "update d p")
    with MemoryUsageTracker.prems Some have r: "r = Returned ()"
      by (auto simp: update_child simp del: update.simps split: if_splits)
    have "p \<in> set_option par" using Some by simp
    from MemoryUsageTracker.IH [OF this] u r
    have "trackerBytes p1 = map (\<lambda>c. c + d) (trackerBytes p)" by simp
    with MemoryUsageTracker.prems Some u show ?thesis
      by (auto simp: update_child simp del: update.simps split: if_splits)
  qed
qed


lemma smod_pos: "0 < (a::int) \<Longrightarrow> x - x smod a = a * (x sdiv a)"
  by (rule minus_smod_eq_mult_sdiv)

lemma smod_bounds: "0 < (a::int) \<Longrightarrow> \<bar>x smod a\<bar> < a"
  by (simp add: smod_int_alt_def abs_mult abs_sgn_eq)



lemma align_pos: "alignment p \<noteq> 0 \<Longrightarrow> 0 < uint (alignment p)"
  by (simp add: word_neq_0_conv word_less_def)



lemma sizeAlign_ge: "alignment p \<noteq> 0 \<Longrightarrow> sz \<le> sizeAlign p sz"
  using smod_bounds [OF align_pos, of p sz] by (simp add: sizeAlign_def Let_def abs_less_iff)




lemma reserve_returned_eq:
  assumes "reserve e sz s = (Returned (), s1)"
  shows "memoryAllocationAllowed e (asMemoryPool (pool s))"
    and "used (memoryManager s) + sz \<le> quota (memoryManager s)"
    and "\<exists>t1. update sz (memoryUsageTracker (pool s)) = (Returned (), t1) \<and>
           s1 = s\<lparr>pool := (pool s)\<lparr>memoryUsageTracker := t1,
                     localMemoryUsage := incrementCurrentBytes sz (localMemoryUsage (pool s))\<rparr>,
                   memoryManager := (memoryManager s)\<lparr>used := used (memoryManager s) + sz\<rparr>\<rparr>"
  using assms
  by (auto simp: reserve_def checkMemoryAllocation_def MemoryManager_reserve_def Let_def
           split: if_splits prod.splits outcome.splits)


lemma release_returned_eq:
  assumes "release e sz s = (Returned (), s1)"
  shows "memoryAllocationAllowed e (asMemoryPool (pool s))"
    and "sz \<le> used (memoryManager s)"
    and "\<exists>t1. update (- sz) (memoryUsageTracker (pool s)) = (Returned (), t1) \<and>
           s1 = s\<lparr>memoryManager := (memoryManager s)\<lparr>used := used (memoryManager s) - sz\<rparr>,
                   pool := (pool s)\<lparr>localMemoryUsage := incrementCurrentBytes (- sz) (localMemoryUsage (pool s)),
                     memoryUsageTracker := t1\<rparr>\<rparr>"
  using assms
  by (auto simp: release_def checkMemoryAllocation_def MemoryManager_release_def Let_def
           split: if_splits prod.splits outcome.splits)

lemma reserve_returned:
  assumes "reserve e sz s = (Returned (), s1)"
  shows "usage s1 = shifted sz (usage s)" and "allocator s1 = allocator s"
    and "asMemoryPool (pool s1) = asMemoryPool (pool s)"
    and "quota (memoryManager s1) = quota (memoryManager s)"
  using reserve_returned_eq(3) [OF assms]
  by (auto simp: usage_def getCurrentBytes_def getAggregateBytes_def incrementCurrentBytes_def
        asMemoryPool_def dest: update_returned)

lemma release_returned:
  assumes "release e sz s = (Returned (), s1)"
  shows "usage s1 = shifted (- sz) (usage s)" and "allocator s1 = allocator s"
    and "asMemoryPool (pool s1) = asMemoryPool (pool s)"
    and "quota (memoryManager s1) = quota (memoryManager s)"
  using release_returned_eq(3) [OF assms]
  by (auto simp: usage_def getCurrentBytes_def getAggregateBytes_def incrementCurrentBytes_def
        asMemoryPool_def dest: update_returned)

lemma asMemoryPool_alignment: "asMemoryPool p = asMemoryPool q \<Longrightarrow> alignment p = alignment q"
  by (simp add: asMemoryPool_def)

lemma free_returned:
  assumes "free e p sz s = (Returned (), s1)"
  shows "usage s1 = shifted (- sizeAlign (pool s) sz) (usage s)"
    and "allocator s1 = allocator s @ [freeBytes p (sizeAlign (pool s) sz)]"
    and "asMemoryPool (pool s1) = asMemoryPool (pool s)"
    and "quota (memoryManager s1) = quota (memoryManager s)"
proof -
  let ?s = "s\<lparr>allocator := allocator s @ [freeBytes p (sizeAlign (pool s) sz)]\<rparr>"
  have r: "release e (sizeAlign (pool s) sz) ?s = (Returned (), s1)"
    using assms by (auto simp: free_def checkMemoryAllocation_def Let_def split: if_splits)
  have u: "usage ?s = usage s" by (simp add: usage_def)
  show "usage s1 = shifted (- sizeAlign (pool s) sz) (usage s)"
    using release_returned(1) [OF r] u by simp
  show "allocator s1 = allocator s @ [freeBytes p (sizeAlign (pool s) sz)]"
    using release_returned(2) [OF r] by simp
  show "asMemoryPool (pool s1) = asMemoryPool (pool s)"
    using release_returned(3) [OF r] by simp
  show "quota (memoryManager s1) = quota (memoryManager s)"
    using release_returned(4) [OF r] by simp
qed

lemma shifted_shifted: "shifted a (shifted b u) = shifted (a + b) u"
  by (cases u) (auto simp: add.assoc add.commute add.left_commute)

lemma shifted_zero: "shifted 0 u = u"
  by (cases u) auto








subsection \<open>Evaluating the concrete tree\<close>

lemmas ex_defs = exampleEnv_def rootPool_def leafPool_def busyPool_def exampleState_def busyState_def
  exampleHeap_def busyHeap_def
lemmas op_defs = reallocate_def reserve_def release_def free_def allocate_def checkMemoryAllocation_def
  MemoryManager_reserve_def MemoryManager_release_def getMemoryQuota_def sizeAlign_def 
  incrementCurrentBytes_def asMemoryPool_def toString_def usage_def getCurrentBytes_def getAggregateBytes_def
  nullptr_def Let_def smod_int_alt_def

lemma shifted_neq: "a \<noteq> b \<Longrightarrow> shifted a u \<noteq> shifted b u"
  by (cases u) auto


subsection \<open>The range of the alignment and the outcome of the operations\<close>





lemma sizeAlign64_wraps: "sizeAlign64 leafPool 9223372036854775807 = - 9223372036854775808"
  by (simp add: sizeAlign64_def int64_def leafPool_def smod_int_alt_def Let_def)














subsection \<open>reallocate\<close>




text \<open>
  C10. A call \<open>reallocate(nullptr, oldSize, newSize)\<close> that returns gives back the new
  buffer; the only thing asked of the allocator is the new buffer (nothing is copied and
  nothing is freed), and every usage counter has grown by exactly \<open>align(newSize)\<close>. For a
  positive \<open>oldSize\<close> this is not a change by \<open>align(newSize) - align(oldSize)\<close>.
\<close>

theorem reallocate_from_nullptr:
  assumes "reallocate e nullptr sz newSize newP s = (Returned q, s')"
    and "alignment (pool s) \<noteq> 0"
  shows "q = newP \<and> newP \<noteq> nullptr \<and>
         allocator s' =
           allocator s @ [allocateBytes (sizeAlign (pool s) newSize) (alignment (pool s))] \<and>
         usage s' = shifted (sizeAlign (pool s) newSize) (usage s) \<and>
         (0 < sz \<longrightarrow>
            usage s' \<noteq> shifted (sizeAlign (pool s) newSize - sizeAlign (pool s) sz) (usage s))"
proof -
  let ?aN = "sizeAlign (pool s) newSize"
  have ok: "checkMemoryAllocation e (pool s) = Returned ()"
    using assms(1) by (auto simp: reallocate_def checkMemoryAllocation_def split: if_splits)
  obtain r1 s1 where r1: "reserve e ?aN s = (r1, s1)" by (cases "reserve e ?aN s")
  have r1': "r1 = Returned ()"
    using assms(1) ok r1 by (cases r1) (auto simp: reallocate_def Let_def)
  note rr = r1 [unfolded r1']
  have n: "newP \<noteq> nullptr"
    using assms(1) ok rr by (auto simp: reallocate_def Let_def split: prod.splits outcome.splits)
  have e: "q = newP \<and> s' = s1\<lparr>allocator := allocator s1 @ [allocateBytes ?aN (alignment (pool s1))]\<rparr>"
    using assms(1) ok rr n by (auto simp: reallocate_def Let_def)
  have al: "alignment (pool s1) = alignment (pool s)"
    using reserve_returned(3) [OF rr] by (simp add: asMemoryPool_def)
  have u: "usage s' = shifted ?aN (usage s)"
    using e reserve_returned(1) [OF rr] by (simp add: usage_def)
  have "usage s' \<noteq> shifted (?aN - sizeAlign (pool s) sz) (usage s)" if "0 < sz"
  proof -
    have "0 < sizeAlign (pool s) sz" using sizeAlign_ge [OF assms(2), of sz] that by simp
    then have "?aN \<noteq> ?aN - sizeAlign (pool s) sz" by simp
    then show ?thesis unfolding u by (rule shifted_neq)
  qed
  then show ?thesis using e n u al reserve_returned(2) [OF rr] by simp
qed

theorem reallocate_from_nullptr_witness:
  "reallocate (exampleEnv False) nullptr 30 50 7 (busyState 1000) =
     (Returned 7, snd (reallocate (exampleEnv False) nullptr 30 50 7 (busyState 1000))) \<and>
   alignment (pool (busyState 1000)) \<noteq> 0 \<and>
   allocator (snd (reallocate (exampleEnv False) nullptr 30 50 7 (busyState 1000))) =
     [allocateBytes 64 16] \<and>
   usage (busyState 1000) = (32, 32, [32, 32], 32) \<and>
   usage (snd (reallocate (exampleEnv False) nullptr 30 50 7 (busyState 1000))) =
     (96, 96, [96, 96], 96)"
proof -
  have r: "reallocate (exampleEnv False) nullptr 30 50 7 (busyState 1000) =
     (Returned 7, snd (reallocate (exampleEnv False) nullptr 30 50 7 (busyState 1000)))"
    by (simp add: ex_defs op_defs)
  have h: "alignment (pool (busyState 1000)) \<noteq> 0" by (simp add: ex_defs)
  have a: "sizeAlign (pool (busyState 1000)) 50 = 64" by (simp add: ex_defs op_defs)
  have u: "usage (busyState 1000) = (32, 32, [32, 32], 32)" by (simp add: ex_defs op_defs)
  have al: "alignment (pool (busyState 1000)) = 16" "allocator (busyState 1000) = []"
    by (simp_all add: ex_defs)
  from reallocate_from_nullptr [OF r h] show ?thesis using r h u by (simp add: a al)
qed


subsection \<open>allocate\<close>





subsection \<open>reserve\<close>




subsection \<open>Matched pairs\<close>

lemma sizeAlign_cong: "asMemoryPool p = asMemoryPool q \<Longrightarrow> sizeAlign p sz = sizeAlign q sz"
  by (simp add: sizeAlign_def asMemoryPool_def Let_def)

lemma opDelta_cong: "asMemoryPool p = asMemoryPool q \<Longrightarrow> opDelta p x = opDelta q x"
  using sizeAlign_cong [of p q] by (cases x) simp_all

lemma allocate_returned:
  assumes "allocate e sz buffer s = (Returned b, s')"
  shows "usage s' = shifted (sizeAlign (pool s) sz) (usage s)"
    and "asMemoryPool (pool s') = asMemoryPool (pool s)"
proof -
  let ?a = "sizeAlign (pool s) sz"
  have ok: "checkMemoryAllocation e (pool s) = Returned ()"
    using assms by (auto simp: allocate_def checkMemoryAllocation_def split: if_splits)
  obtain r1 s1 where r1: "reserve e ?a s = (r1, s1)" by (cases "reserve e ?a s")
  have r1': "r1 = Returned ()" using assms ok r1 by (cases r1) (auto simp: allocate_def Let_def)
  note rr = r1 [unfolded r1']
  have e: "s' = s1\<lparr>allocator := allocator s1 @ [allocateBytes ?a (alignment (pool s1))]\<rparr>"
    using assms ok rr
    by (auto simp: allocate_def Let_def split: if_splits prod.splits outcome.splits)
  show "usage s' = shifted ?a (usage s)" using e reserve_returned(1) [OF rr] by (simp add: usage_def)
  show "asMemoryPool (pool s') = asMemoryPool (pool s)" using e reserve_returned(3) [OF rr] by simp
qed

lemma applyOp_returned:
  assumes "applyOp e x s = (Returned (), s')"
  shows "usage s' = shifted (opDelta (pool s) x) (usage s)"
    and "asMemoryPool (pool s') = asMemoryPool (pool s)"
proof -
  show "usage s' = shifted (opDelta (pool s) x) (usage s)"
  proof (cases x)
    case (Reserve sz) then show ?thesis using assms reserve_returned(1) by simp
  next
    case (Release sz) then show ?thesis using assms release_returned(1) by simp
  next
    case (Allocate sz b)
    then show ?thesis using assms allocate_returned(1) [of e sz b s]
      by (auto split: prod.splits outcome.splits)
  next
    case (Free q sz) then show ?thesis using assms free_returned(1) by simp
  qed
  show "asMemoryPool (pool s') = asMemoryPool (pool s)"
  proof (cases x)
    case (Reserve sz) then show ?thesis using assms reserve_returned(3) by simp
  next
    case (Release sz) then show ?thesis using assms release_returned(3) by simp
  next
    case (Allocate sz b)
    then show ?thesis using assms allocate_returned(2) [of e sz b s]
      by (auto split: prod.splits outcome.splits)
  next
    case (Free q sz) then show ?thesis using assms free_returned(3) by simp
  qed
qed

lemma run_returned:
  "run e ops s = (Returned (), s') \<Longrightarrow>
     usage s' = shifted (sum_list (map (opDelta (pool s)) ops)) (usage s)"
proof (induction ops arbitrary: s)
  case Nil
  then show ?case by (simp add: shifted_zero)
next
  case (Cons x xs)
  obtain r1 s1 where a: "applyOp e x s = (r1, s1)" by (cases "applyOp e x s")
  with Cons.prems have r1: "r1 = Returned ()" and rest: "run e xs s1 = (Returned (), s')"
    by (cases r1; simp)+
  note st = applyOp_returned [OF a [unfolded r1]]
  have "map (opDelta (pool s1)) xs = map (opDelta (pool s)) xs"
    using opDelta_cong [OF st(2)] by simp
  with Cons.IH [OF rest] st(1) show ?case
    by (simp add: shifted_shifted add.commute)
qed

lemma matched_sum: "matched ops \<Longrightarrow> sum_list (map (opDelta p) ops) = 0"
proof (induction ops rule: matched.induct)
  case 1
  show ?case by simp
next
  case (2 sz xs)
  from "2.prems" have m: "Release sz \<in> set xs" by (simp split: if_splits)
  from "2.prems" m have r: "matched (remove1 (Release sz) xs)" by simp
  from "2.IH" [OF m r]
  have ih: "sum_list (map (opDelta p) (remove1 (Release sz) xs)) = 0" .
  have "sum_list (map (opDelta p) xs) =
          opDelta p (Release sz) + sum_list (map (opDelta p) (remove1 (Release sz) xs))"
    using m by (rule sum_list_map_remove1)
  then show ?case unfolding ih by simp
next
  case (3 sz buffer xs)
  from "3.prems" have m: "Free buffer sz \<in> set xs" by (simp split: if_splits)
  from "3.prems" m have r: "matched (remove1 (Free buffer sz) xs)" by simp
  from "3.IH" [OF m r]
  have ih: "sum_list (map (opDelta p) (remove1 (Free buffer sz) xs)) = 0" .
  have "sum_list (map (opDelta p) xs) =
          opDelta p (Free buffer sz) + sum_list (map (opDelta p) (remove1 (Free buffer sz) xs))"
    using m by (rule sum_list_map_remove1)
  then show ?case unfolding ih by simp
next
  case (4 sz xs)
  then show ?case by simp
next
  case (5 q sz xs)
  then show ?case by simp
qed

lemma currentBytes_hd: "currentBytes t = hd (trackerBytes t)"
  by (cases t) simp

lemma ctor_fresh:
  assumes "MemoryPoolImpl_ctor nm knd par cb options h = Returned p"
  shows "usageCurrentBytes (localMemoryUsage p) = 0" and "currentBytes (memoryUsageTracker p) = 0"
proof -
  obtain b where b: "MemoryPool_ctor nm knd par options = Returned b"
    using assms by (cases "MemoryPool_ctor nm knd par options") (simp_all add: MemoryPoolImpl_ctor_def)
  let ?t = "case parent b of
              None \<Rightarrow> Some (MemoryUsageTracker_create (optCapacity options))
            | Some a \<Rightarrow>
                (case h a of
                   None \<Rightarrow> None
                 | Some pp \<Rightarrow>
                     Some (MemoryUsageTracker_addChild (knd = kLeaf) (memoryUsageTracker pp)))"
  obtain t where t: "?t = Some t"
    using assms b by (cases ?t) (simp_all add: MemoryPoolImpl_ctor_def)
  have p: "memoryUsageTracker p = t" "localMemoryUsage p = \<lparr>usageCurrentBytes = 0, usageMaxBytes = 0\<rparr>"
    using assms b t by (auto simp add: MemoryPoolImpl_ctor_def)
  have "currentBytes t = 0"
    using t by (auto simp: MemoryUsageTracker_create_def MemoryUsageTracker_addChild_def
                     split: option.splits)
  then show "currentBytes (memoryUsageTracker p) = 0" using p by simp
  show "usageCurrentBytes (localMemoryUsage p) = 0" using p by simp
qed

text \<open>
  C4. On a pool as its constructor leaves it, with a memory manager that counts nothing as
  used, every run of matched reserve/release and allocate/free pairs in which each
  operation succeeds ends with the local current bytes at 0 and the used bytes of the
  manager at 0 (and the current bytes of the pool's tracker at 0).
\<close>

theorem matched_pairs_balance:
  assumes c: "MemoryPoolImpl_ctor nm knd par cb options h = Returned p"
    and r: "run e ops \<lparr>pool = p, memoryManager = \<lparr>quota = q, used = 0\<rparr>, allocator = []\<rparr> =
              (Returned (), s')"
    and m: "matched ops"
  shows "usageCurrentBytes (localMemoryUsage (pool s')) = 0 \<and> used (memoryManager s') = 0 \<and>
         currentBytes (memoryUsageTracker (pool s')) = 0"
proof -
  let ?s = "\<lparr>pool = p, memoryManager = \<lparr>quota = q, used = 0\<rparr>, allocator = []\<rparr>"
  have "usage s' = usage ?s" using run_returned [OF r] matched_sum [OF m] by (simp add: shifted_zero)
  then have "usageCurrentBytes (localMemoryUsage (pool s')) = usageCurrentBytes (localMemoryUsage p)"
    and "used (memoryManager s') = 0"
    and "trackerBytes (memoryUsageTracker (pool s')) = trackerBytes (memoryUsageTracker p)"
    by (simp_all add: usage_def)
  then show ?thesis using ctor_fresh [OF c] by (simp add: currentBytes_hd)
qed

theorem matched_pairs_balance_witness:
  "MemoryPoolImpl_ctor ''leaf'' kLeaf (Some 0) None \<lparr>optAlignment = 16, optCapacity = None\<rparr>
     [0 \<mapsto> rootPool] = Returned leafPool \<and>
   matched [Reserve 16, Allocate 30 7, Release 16, Free 7 30] \<and>
   run (exampleEnv False) [Reserve 16, Allocate 30 7, Release 16, Free 7 30]
     \<lparr>pool = leafPool, memoryManager = \<lparr>quota = 1000, used = 0\<rparr>, allocator = []\<rparr> =
     (Returned (),
      snd (run (exampleEnv False) [Reserve 16, Allocate 30 7, Release 16, Free 7 30]
        \<lparr>pool = leafPool, memoryManager = \<lparr>quota = 1000, used = 0\<rparr>, allocator = []\<rparr>)) \<and>
   usageCurrentBytes (localMemoryUsage (pool
     (snd (run (exampleEnv False) [Reserve 16, Allocate 30 7, Release 16, Free 7 30]
        \<lparr>pool = leafPool, memoryManager = \<lparr>quota = 1000, used = 0\<rparr>, allocator = []\<rparr>)))) = 0 \<and>
   used (memoryManager
     (snd (run (exampleEnv False) [Reserve 16, Allocate 30 7, Release 16, Free 7 30]
        \<lparr>pool = leafPool, memoryManager = \<lparr>quota = 1000, used = 0\<rparr>, allocator = []\<rparr>))) = 0"
proof -
  let ?ops = "[Reserve 16, Allocate 30 7, Release 16, Free 7 30]"
  let ?s = "\<lparr>pool = leafPool, memoryManager = \<lparr>quota = 1000, used = 0\<rparr>, allocator = []\<rparr>"
  have c: "MemoryPoolImpl_ctor ''leaf'' kLeaf (Some 0) None \<lparr>optAlignment = 16, optCapacity = None\<rparr>
     [0 \<mapsto> rootPool] = Returned leafPool"
    by (simp add: MemoryPoolImpl_ctor_def MemoryPool_ctor_def alignmentCheck_def
          MemoryUsageTracker_addChild_def ex_defs)
  have m: "matched ?ops" by simp
  have r: "run (exampleEnv False) ?ops ?s = (Returned (), snd (run (exampleEnv False) ?ops ?s))"
    by (simp add: ex_defs op_defs)
  from matched_pairs_balance [OF c r m] show ?thesis using c m r by simp
qed

subsection \<open>addChild and dropChild\<close>

lemma genChild_returned:
  assumes "h this = Some p" "alignmentCheck 0 (alignment p) = Returned ()"
  shows "genChild this nm knd h =
           Returned \<lparr>name = nm, kind = knd, alignment = alignment p, parent = Some this,
                     children = Map.empty,
                     memoryUsageTracker =
                       MemoryUsageTracker_addChild (knd = kLeaf) (memoryUsageTracker p),
                     destructionCb = None,
                     localMemoryUsage = \<lparr>usageCurrentBytes = 0, usageMaxBytes = 0\<rparr>,
                     subtreeMemoryUsage = \<lparr>usageCurrentBytes = 0, usageMaxBytes = 0\<rparr>\<rparr>"
  using assms by (simp add: genChild_def MemoryPoolImpl_ctor_def MemoryPool_ctor_def)

lemma genChild_parent: "genChild this nm knd h = Returned c \<Longrightarrow> parent c = Some this"
  by (auto simp: genChild_def MemoryPoolImpl_ctor_def MemoryPool_ctor_def
           split: option.splits outcome.splits if_splits)

text \<open>
  C7. On a pool on which management is allowed, \<open>addChild\<close> with a name that is already
  among the children fails with the duplicate-child error and leaves the whole heap, and
  so the registry, its size and the existing child, as it was. With a new name (and an
  alignment that passes the check of the constructor) it creates a pool object of that name
  and kind whose parent is the pool itself, registers its address under the name and
  returns that address; no other object changes.
\<close>

theorem addChild_registry:
  assumes p: "h this = Some p" and ok: "poolManagementAllowed e (asMemoryPool p)"
  shows "(children p nm \<noteq> None \<longrightarrow>
            addChild e this nm knd newAddr h = (Threw (DuplicateChild nm (toString e p)), h)) \<and>
         (children p nm = None \<and> newAddr \<notin> dom h \<and>
          alignmentCheck 0 (alignment p) = Returned () \<longrightarrow>
            (\<exists>child p' h'.
                addChild e this nm knd newAddr h = (Returned newAddr, h') \<and>
                h' newAddr = Some child \<and> name child = nm \<and> kind child = knd \<and>
                parent child = Some this \<and> children child = Map.empty \<and>
                h' this = Some p' \<and> children p' = (children p)(nm \<mapsto> newAddr) \<and>
                (\<forall>a. a \<noteq> this \<and> a \<noteq> newAddr \<longrightarrow> h' a = h a)))"
proof (intro conjI impI)
  assume "children p nm \<noteq> None"
  then show "addChild e this nm knd newAddr h = (Threw (DuplicateChild nm (toString e p)), h)"
    using p ok by (simp add: addChild_def checkPoolManagement_def)
next
  assume a: "children p nm = None \<and> newAddr \<notin> dom h \<and>
             alignmentCheck 0 (alignment p) = Returned ()"
  then have ne: "newAddr \<noteq> this" using p by auto
  let ?c = "\<lparr>name = nm, kind = knd, alignment = alignment p, parent = Some this,
             children = Map.empty,
             memoryUsageTracker =
               MemoryUsageTracker_addChild (knd = kLeaf) (memoryUsageTracker p),
             destructionCb = None,
             localMemoryUsage = \<lparr>usageCurrentBytes = 0, usageMaxBytes = 0\<rparr>,
             subtreeMemoryUsage = \<lparr>usageCurrentBytes = 0, usageMaxBytes = 0\<rparr>\<rparr>"
  let ?p = "p\<lparr>children := (children p)(nm \<mapsto> newAddr)\<rparr>"
  let ?h = "h(newAddr \<mapsto> ?c, this \<mapsto> ?p)"
  have g: "genChild this nm knd h = Returned ?c" using genChild_returned [where h = h and this = this and p = p and nm = nm and knd = knd] p a by simp
  have r: "addChild e this nm knd newAddr h = (Returned newAddr, ?h)"
    using p ok a g by (simp add: addChild_def checkPoolManagement_def)
  have "?h newAddr = Some ?c" using ne by simp
  moreover have "?h this = Some ?p" by simp
  moreover have "\<forall>a. a \<noteq> this \<and> a \<noteq> newAddr \<longrightarrow> ?h a = h a" by simp
  ultimately show "\<exists>child p' h'.
                addChild e this nm knd newAddr h = (Returned newAddr, h') \<and>
                h' newAddr = Some child \<and> name child = nm \<and> kind child = knd \<and>
                parent child = Some this \<and> children child = Map.empty \<and>
                h' this = Some p' \<and> children p' = (children p)(nm \<mapsto> newAddr) \<and>
                (\<forall>a. a \<noteq> this \<and> a \<noteq> newAddr \<longrightarrow> h' a = h a)"
    using r by (intro exI [of _ ?c] exI [of _ ?p] exI [of _ ?h]) simp
qed

theorem addChild_registry_witness:
  "exampleHeap 0 = Some rootPool \<and>
   poolManagementAllowed (exampleEnv False) (asMemoryPool rootPool) \<and>
   children rootPool ''leaf'' \<noteq> None \<and>
   addChild (exampleEnv False) 0 ''leaf'' kLeaf 2 exampleHeap =
     (Threw (DuplicateChild ''leaf'' ''Memory Pool[root AGGREGATE MALLOC]''), exampleHeap) \<and>
   children rootPool ''other'' = None \<and> 2 \<notin> dom exampleHeap \<and>
   alignmentCheck 0 (alignment rootPool) = Returned () \<and>
   (\<exists>child p' h'.
       addChild (exampleEnv False) 0 ''other'' kLeaf 2 exampleHeap = (Returned 2, h') \<and>
       h' 2 = Some child \<and> name child = ''other'' \<and> kind child = kLeaf \<and>
       parent child = Some 0 \<and> children child = Map.empty \<and>
       h' 0 = Some p' \<and> children p' = [''leaf'' \<mapsto> 1, ''other'' \<mapsto> 2])"
proof -
  have h1: "exampleHeap 0 = Some rootPool" by (simp add: ex_defs)
  have h2: "poolManagementAllowed (exampleEnv False) (asMemoryPool rootPool)"
    by (simp add: ex_defs asMemoryPool_def)
  have d: "children rootPool ''leaf'' \<noteq> None" by (simp add: ex_defs)
  have n: "children rootPool ''other'' = None \<and> 2 \<notin> dom exampleHeap \<and>
           alignmentCheck 0 (alignment rootPool) = Returned ()"
    by (simp add: ex_defs alignmentCheck_def)
  have s: "toString (exampleEnv False) rootPool = ''Memory Pool[root AGGREGATE MALLOC]''"
    by (simp add: ex_defs toString_def)
  have c: "children rootPool = [''leaf'' \<mapsto> 1]" by (simp add: ex_defs)
  note t = addChild_registry [where h = exampleHeap and this = 0 and p = rootPool
      and e = "exampleEnv False" and knd = kLeaf and newAddr = 2, OF h1 h2]
  from t [of "''leaf''"] d
  have r1: "addChild (exampleEnv False) 0 ''leaf'' kLeaf 2 exampleHeap =
     (Threw (DuplicateChild ''leaf'' ''Memory Pool[root AGGREGATE MALLOC]''), exampleHeap)"
    unfolding s by blast
  from t [of "''other''"] n
  have r2: "\<exists>child p' h'.
       addChild (exampleEnv False) 0 ''other'' kLeaf 2 exampleHeap = (Returned 2, h') \<and>
       h' 2 = Some child \<and> name child = ''other'' \<and> kind child = kLeaf \<and>
       parent child = Some 0 \<and> children child = Map.empty \<and>
       h' 0 = Some p' \<and> children p' = [''leaf'' \<mapsto> 1, ''other'' \<mapsto> 2]"
    unfolding c by blast
  show ?thesis using h1 h2 d n r1 r2 by simp
qed

text \<open>
  C8. On a pool on which management is allowed, \<open>dropChild\<close> for a child whose name is not in
  the registry fails with the invariant violation and changes nothing; for a child whose
  name is in the registry it removes the entry of that name and no other.
\<close>

theorem dropChild_registry:
  assumes p: "h this = Some p" and ok: "poolManagementAllowed e (asMemoryPool p)"
    and c: "h child = Some c"
  shows "(children p (name c) = None \<longrightarrow>
            dropChild e this child h = (Threw InvariantViolation, h)) \<and>
         (children p (name c) \<noteq> None \<longrightarrow>
            (\<exists>p' h'.
                dropChild e this child h = (Returned (), h') \<and> h' this = Some p' \<and>
                children p' (name c) = None \<and>
                (\<forall>k. k \<noteq> name c \<longrightarrow> children p' k = children p k) \<and>
                dom (children p') = dom (children p) - {name c} \<and>
                (\<forall>a. a \<noteq> this \<longrightarrow> h' a = h a)))"
proof (intro conjI impI)
  assume n: "children p (name c) = None"
  then have "(children p)(name c := None) = children p" by (simp add: fun_upd_idem)
  then have "h(this \<mapsto> p\<lparr>children := (children p)(name c := None)\<rparr>) = h"
    using p by (simp add: fun_upd_idem)
  then show "dropChild e this child h = (Threw InvariantViolation, h)"
    using p ok c n by (simp add: dropChild_def checkPoolManagement_def Let_def)
next
  assume n: "children p (name c) \<noteq> None"
  let ?p = "p\<lparr>children := (children p)(name c := None)\<rparr>"
  let ?h = "h(this \<mapsto> ?p)"
  have r: "dropChild e this child h = (Returned (), ?h)"
    using p ok c n by (auto simp add: dropChild_def checkPoolManagement_def Let_def)
  show "\<exists>p' h'.
                dropChild e this child h = (Returned (), h') \<and> h' this = Some p' \<and>
                children p' (name c) = None \<and>
                (\<forall>k. k \<noteq> name c \<longrightarrow> children p' k = children p k) \<and>
                dom (children p') = dom (children p) - {name c} \<and>
                (\<forall>a. a \<noteq> this \<longrightarrow> h' a = h a)"
    using r by (intro exI [of _ ?p] exI [of _ ?h]) auto
qed

theorem dropChild_registry_witness:
  "exampleHeap 0 = Some rootPool \<and> exampleHeap 1 = Some leafPool \<and>
   poolManagementAllowed (exampleEnv False) (asMemoryPool rootPool) \<and>
   children rootPool (name leafPool) \<noteq> None \<and>
   (\<exists>p' h'. dropChild (exampleEnv False) 0 1 exampleHeap = (Returned (), h') \<and>
        h' 0 = Some p' \<and> children p' ''leaf'' = None \<and> dom (children p') = {}) \<and>
   unregisteredHeap 0 = Some (rootPool\<lparr>children := Map.empty\<rparr>) \<and>
   unregisteredHeap 1 = Some leafPool \<and>
   children (rootPool\<lparr>children := Map.empty\<rparr>) (name leafPool) = None \<and>
   dropChild (exampleEnv False) 0 1 unregisteredHeap = (Threw InvariantViolation, unregisteredHeap)"
proof -
  have h1: "exampleHeap 0 = Some rootPool" and h3: "exampleHeap 1 = Some leafPool"
    by (simp_all add: ex_defs)
  have h2: "poolManagementAllowed (exampleEnv False) (asMemoryPool rootPool)"
    by (simp add: ex_defs asMemoryPool_def)
  have pr: "children rootPool (name leafPool) \<noteq> None" by (simp add: ex_defs)
  have nm: "name leafPool = ''leaf''" and dm: "dom (children rootPool) - {''leaf''} = {}"
    by (simp_all add: ex_defs)
  from dropChild_registry [where h = exampleHeap and this = 0 and p = rootPool
      and e = "exampleEnv False" and child = 1 and c = leafPool, OF h1 h2 h3] pr
  have r1: "\<exists>p' h'. dropChild (exampleEnv False) 0 1 exampleHeap = (Returned (), h') \<and>
        h' 0 = Some p' \<and> children p' ''leaf'' = None \<and> dom (children p') = {}"
    unfolding nm dm by blast
  have g1: "unregisteredHeap 0 = Some (rootPool\<lparr>children := Map.empty\<rparr>)"
    and g3: "unregisteredHeap 1 = Some leafPool"
    by (simp_all add: unregisteredHeap_def)
  have g2: "poolManagementAllowed (exampleEnv False)
              (asMemoryPool (rootPool\<lparr>children := Map.empty\<rparr>))"
    by (simp add: ex_defs asMemoryPool_def)
  have ab: "children (rootPool\<lparr>children := Map.empty\<rparr>) (name leafPool) = None" by simp
  from dropChild_registry [where h = unregisteredHeap and this = 0
      and p = "rootPool\<lparr>children := Map.empty\<rparr>"
      and e = "exampleEnv False" and child = 1 and c = leafPool, OF g1 g2 g3] ab
  have r2: "dropChild (exampleEnv False) 0 1 unregisteredHeap =
              (Threw InvariantViolation, unregisteredHeap)" by blast
  show ?thesis using h1 h2 h3 pr r1 g1 g3 ab r2 by simp
qed

subsection \<open>Destruction\<close>

lemma dropChild_returned:
  assumes "h this = Some p" "poolManagementAllowed e (asMemoryPool p)" "h child = Some c"
    "children p (name c) \<noteq> None"
  shows "dropChild e this child h =
           (Returned (), h(this \<mapsto> p\<lparr>children := (children p)(name c := None)\<rparr>))"
  using assms by (auto simp add: dropChild_def checkPoolManagement_def Let_def)

text \<open>
  C6. Destroying a pool whose registry of children is not empty fails, with the leak check
  enabled or not. With the leak check enabled, destroying a pool whose tracker has current
  bytes other than zero fails. With the leak check disabled (or with no bytes left) and an
  empty registry the destruction succeeds, whatever bytes the tracker holds: a root pool is
  removed, and a child is dropped from the registry of its parent and removed.
\<close>

theorem destroy_checks:
  assumes p: "h this = Some p"
  shows "(children p \<noteq> Map.empty \<longrightarrow> (\<exists>x. destroy e this h = (Threw x, h))) \<and>
         (leakCheckEnabled e \<and> currentBytes (memoryUsageTracker p) \<noteq> 0 \<longrightarrow>
            destroy e this h = (Threw InvariantViolation, h)) \<and>
         ((\<not> leakCheckEnabled e \<or> currentBytes (memoryUsageTracker p) = 0) \<and>
          (case destructionCb p of None \<Rightarrow> True | Some cb \<Rightarrow> cb this = Returned ()) \<and>
          children p = Map.empty \<longrightarrow>
            (parent p = None \<longrightarrow> destroy e this h = (Returned (), h(this := None))) \<and>
            (\<forall>a pp. parent p = Some a \<and> h a = Some pp \<and>
                    poolManagementAllowed e (asMemoryPool pp) \<and>
                    children pp (name p) \<noteq> None \<longrightarrow>
               destroy e this h =
                 (Returned (),
                  (h(a \<mapsto> pp\<lparr>children := (children pp)(name p := None)\<rparr>))(this := None))))"
proof -
  have 1: "\<exists>x. destroy e this h = (Threw x, h)" if c: "children p \<noteq> Map.empty"
  proof -
    have "snd (MemoryPoolImpl_dtor e this h) = h"
      by (simp add: MemoryPoolImpl_dtor_def split: option.splits)
    then obtain r1 where r1: "MemoryPoolImpl_dtor e this h = (r1, h)"
      by (cases "MemoryPoolImpl_dtor e this h") simp
    have b: "MemoryPool_dtor e this h = (Threw InvariantViolation, h)"
      using p c by (simp add: MemoryPool_dtor_def)
    show ?thesis by (cases r1) (simp_all add: destroy_def r1 b)
  qed
  have 2: "destroy e this h = (Threw InvariantViolation, h)"
    if "leakCheckEnabled e \<and> currentBytes (memoryUsageTracker p) \<noteq> 0"
    using p that by (simp add: destroy_def MemoryPoolImpl_dtor_def)
  have 3: "(parent p = None \<longrightarrow> destroy e this h = (Returned (), h(this := None))) \<and>
            (\<forall>a pp. parent p = Some a \<and> h a = Some pp \<and>
                    poolManagementAllowed e (asMemoryPool pp) \<and>
                    children pp (name p) \<noteq> None \<longrightarrow>
               destroy e this h =
                 (Returned (),
                  (h(a \<mapsto> pp\<lparr>children := (children pp)(name p := None)\<rparr>))(this := None)))"
    if l: "(\<not> leakCheckEnabled e \<or> currentBytes (memoryUsageTracker p) = 0) \<and>
          (case destructionCb p of None \<Rightarrow> True | Some cb \<Rightarrow> cb this = Returned ()) \<and>
          children p = Map.empty"
  proof -
    have i: "MemoryPoolImpl_dtor e this h = (Returned (), h)"
      using p l by (auto simp add: MemoryPoolImpl_dtor_def split: option.splits)
    have root: "destroy e this h = (Returned (), h(this := None))" if "parent p = None"
      using p l that by (simp add: destroy_def i MemoryPool_dtor_def)
    have child: "destroy e this h =
          (Returned (), (h(a \<mapsto> pp\<lparr>children := (children pp)(name p := None)\<rparr>))(this := None))"
      if q: "parent p = Some a \<and> h a = Some pp \<and> poolManagementAllowed e (asMemoryPool pp) \<and>
             children pp (name p) \<noteq> None" for a pp
    proof -
      have d: "dropChild e a this h =
                 (Returned (), h(a \<mapsto> pp\<lparr>children := (children pp)(name p := None)\<rparr>))"
        using dropChild_returned [of h a pp e this p] p q by simp
      have b: "MemoryPool_dtor e this h =
                 (Returned (), h(a \<mapsto> pp\<lparr>children := (children pp)(name p := None)\<rparr>))"
        using p l q d by (simp add: MemoryPool_dtor_def)
      show ?thesis by (simp add: destroy_def i b)
    qed
    from root child show ?thesis by blast
  qed
  from 1 2 3 show ?thesis by blast
qed

theorem destroy_checks_witness:
  "busyHeap 1 = Some busyPool \<and> currentBytes (memoryUsageTracker busyPool) \<noteq> 0 \<and>
   children busyPool = Map.empty \<and> parent busyPool = Some 0 \<and> busyHeap 0 = Some rootPool \<and>
   children rootPool (name busyPool) \<noteq> None \<and>
   destroy (exampleEnv True) 1 busyHeap = (Threw InvariantViolation, busyHeap) \<and>
   destroy (exampleEnv False) 1 busyHeap =
     (Returned (), (busyHeap(0 \<mapsto> rootPool\<lparr>children := (children rootPool)(name busyPool := None)\<rparr>))
                     (1 := None)) \<and>
   children rootPool \<noteq> Map.empty \<and>
   (\<exists>x. destroy (exampleEnv False) 0 busyHeap = (Threw x, busyHeap)) \<and>
   (\<exists>x. destroy (exampleEnv True) 0 busyHeap = (Threw x, busyHeap))"
proof -
  have h1: "busyHeap 1 = Some busyPool" and h0: "busyHeap 0 = Some rootPool"
    by (simp_all add: ex_defs)
  have b: "currentBytes (memoryUsageTracker busyPool) \<noteq> 0" by (simp add: ex_defs)
  have c: "children busyPool = Map.empty" "parent busyPool = Some 0"
    "children rootPool (name busyPool) \<noteq> None" "children rootPool \<noteq> Map.empty"
    "case destructionCb busyPool of None \<Rightarrow> True | Some cb \<Rightarrow> cb 1 = Returned ()"
    by (simp_all add: ex_defs)
  have l: "leakCheckEnabled (exampleEnv True)" "\<not> leakCheckEnabled (exampleEnv False)"
    by (simp_all add: ex_defs)
  have m: "poolManagementAllowed (exampleEnv False) (asMemoryPool rootPool)"
    by (simp add: ex_defs asMemoryPool_def)
  from destroy_checks [where h = busyHeap and this = 1 and p = busyPool
      and e = "exampleEnv True", OF h1] l(1) b
  have r1: "destroy (exampleEnv True) 1 busyHeap = (Threw InvariantViolation, busyHeap)" by blast
  from destroy_checks [where h = busyHeap and this = 1 and p = busyPool
      and e = "exampleEnv False", OF h1] l(2) c h0 m
  have r2: "destroy (exampleEnv False) 1 busyHeap =
     (Returned (), (busyHeap(0 \<mapsto> rootPool\<lparr>children := (children rootPool)(name busyPool := None)\<rparr>))
                     (1 := None))" by blast
  from destroy_checks [where h = busyHeap and this = 0 and p = rootPool
      and e = "exampleEnv False", OF h0] c(4)
  have r3: "\<exists>x. destroy (exampleEnv False) 0 busyHeap = (Threw x, busyHeap)" by blast
  from destroy_checks [where h = busyHeap and this = 0 and p = rootPool
      and e = "exampleEnv True", OF h0] c(4)
  have r4: "\<exists>x. destroy (exampleEnv True) 0 busyHeap = (Threw x, busyHeap)" by blast
  show ?thesis using h1 h0 b c r1 r2 r3 r4 by simp
qed

subsection \<open>Roots are aggregate pools\<close>

lemma rootsAggregate_upd:
  "rootsAggregate h \<Longrightarrow> (parent p = None \<longrightarrow> kind p = kAggregate) \<Longrightarrow>
     rootsAggregate (h(a \<mapsto> p))"
  by (auto simp: rootsAggregate_def ran_def split: if_splits)

lemma rootsAggregate_del: "rootsAggregate h \<Longrightarrow> rootsAggregate (h(a := None))"
  by (auto simp: rootsAggregate_def ran_def split: if_splits)

lemma rootsAggregate_empty: "rootsAggregate Map.empty"
  by (simp add: rootsAggregate_def)

lemma rootsAggregate_at: "rootsAggregate h \<Longrightarrow> h a = Some p \<Longrightarrow> parent p = None \<Longrightarrow> kind p = kAggregate"
  by (auto simp: rootsAggregate_def ran_def)

lemma addChild_roots: "rootsAggregate h \<Longrightarrow> rootsAggregate (snd (addChild e this nm knd newAddr h))"
proof -
  assume r: "rootsAggregate h"
  show ?thesis
  proof (cases "h this")
    case None
    then show ?thesis using r by (simp add: addChild_def)
  next
    case (Some p)
    show ?thesis
    proof (cases "genChild this nm knd h")
      case (Threw x)
      then show ?thesis using r Some by (simp add: addChild_def split: outcome.splits)
    next
      case (Returned c)
      have c: "parent c = Some this" using genChild_parent [OF Returned] .
      have "rootsAggregate (h(newAddr \<mapsto> c, this \<mapsto> p\<lparr>children := (children p)(nm \<mapsto> newAddr)\<rparr>))"
        using r c rootsAggregate_at [OF r Some]
        by (intro rootsAggregate_upd) simp_all
      then show ?thesis using r Some Returned by (simp add: addChild_def split: outcome.splits)
    qed
  qed
qed

lemma dropChild_roots: "rootsAggregate h \<Longrightarrow> rootsAggregate (snd (dropChild e this child h))"
proof -
  assume r: "rootsAggregate h"
  show ?thesis
  proof (cases "h this")
    case None
    then show ?thesis using r by (simp add: dropChild_def)
  next
    case (Some p)
    have "rootsAggregate (h(this \<mapsto> p\<lparr>children := m\<rparr>))" for m
      using r rootsAggregate_at [OF r Some] by (intro rootsAggregate_upd) simp_all
    then show ?thesis using r Some
      by (simp add: dropChild_def Let_def split: outcome.splits option.splits)
  qed
qed

lemma destroy_roots: "rootsAggregate h \<Longrightarrow> rootsAggregate (snd (destroy e this h))"
proof -
  assume r: "rootsAggregate h"
  have i: "snd (MemoryPoolImpl_dtor e this h) = h"
    by (simp add: MemoryPoolImpl_dtor_def split: option.splits)
  have b: "rootsAggregate (snd (MemoryPool_dtor e this h))"
    using r dropChild_roots [OF r]
    by (simp add: MemoryPool_dtor_def split: option.splits)
  obtain r1 h1 where 1: "MemoryPoolImpl_dtor e this h = (r1, h1)" by (cases "MemoryPoolImpl_dtor e this h")
  obtain r2 h2 where 2: "MemoryPool_dtor e this h = (r2, h2)" by (cases "MemoryPool_dtor e this h")
  have h1: "h1 = h" using i 1 by simp
  have h2: "rootsAggregate h2" using b 2 by simp
  show ?thesis
    using r h1 h2 1 2 rootsAggregate_del [OF h2, of this]
    by (cases r1; cases r2) (simp_all add: destroy_def)
qed

lemma release_base: "asMemoryPool (pool (snd (release e sz s))) = asMemoryPool (pool s)"
  by (simp add: release_def asMemoryPool_def Let_def split: outcome.splits prod.splits)

lemma reserve_base: "asMemoryPool (pool (snd (reserve e sz s))) = asMemoryPool (pool s)"
proof (cases "memoryAllocationAllowed e (asMemoryPool (pool s))")
  case False
  then show ?thesis by (simp add: reserve_def checkMemoryAllocation_def)
next
  case True
  obtain r t' where u: "update sz (memoryUsageTracker (pool s)) = (r, t')"
    by (cases "update sz (memoryUsageTracker (pool s))")
  show ?thesis
  proof (cases r)
    case (Threw x)
    then show ?thesis using True u
      by (simp add: reserve_def checkMemoryAllocation_def asMemoryPool_def)
  next
    case (Returned v)
    let ?s2 = "s\<lparr>pool := (pool s)\<lparr>memoryUsageTracker := t',
                 localMemoryUsage := incrementCurrentBytes sz (localMemoryUsage (pool s))\<rparr>\<rparr>"
    obtain success m' where m: "MemoryManager_reserve sz (memoryManager s) = (success, m')"
      by (cases "MemoryManager_reserve sz (memoryManager s)")
    let ?s3 = "?s2\<lparr>memoryManager := m'\<rparr>"
    have b3: "asMemoryPool (pool ?s3) = asMemoryPool (pool s)" by (simp add: asMemoryPool_def)
    show ?thesis
    proof (cases success)
      case True
      then show ?thesis using \<open>memoryAllocationAllowed e (asMemoryPool (pool s))\<close> u Returned m b3
        by (simp add: reserve_def checkMemoryAllocation_def Let_def)
    next
      case False
      obtain r4 s4 where r4: "release e sz ?s3 = (r4, s4)" by (cases "release e sz ?s3")
      have "asMemoryPool (pool s4) = asMemoryPool (pool s)"
        using release_base [of e sz ?s3] r4 b3 by simp
      then show ?thesis using \<open>memoryAllocationAllowed e (asMemoryPool (pool s))\<close> u Returned m False r4
        by (cases r4) (simp_all add: reserve_def checkMemoryAllocation_def Let_def)
    qed
  qed
qed

lemma free_base: "asMemoryPool (pool (snd (free e p sz s))) = asMemoryPool (pool s)"
proof (cases "memoryAllocationAllowed e (asMemoryPool (pool s))")
  case False
  then show ?thesis by (simp add: free_def checkMemoryAllocation_def)
next
  case True
  let ?s1 = "s\<lparr>allocator := allocator s @ [freeBytes p (sizeAlign (pool s) sz)]\<rparr>"
  have "asMemoryPool (pool (snd (release e (sizeAlign (pool s) sz) ?s1))) = asMemoryPool (pool ?s1)"
    by (rule release_base)
  then show ?thesis using True by (simp add: free_def checkMemoryAllocation_def Let_def)
qed

lemma allocate_base: "asMemoryPool (pool (snd (allocate e sz buffer s))) = asMemoryPool (pool s)"
proof (cases "memoryAllocationAllowed e (asMemoryPool (pool s))")
  case False
  then show ?thesis by (simp add: allocate_def checkMemoryAllocation_def)
next
  case True
  let ?a = "sizeAlign (pool s) sz"
  obtain r1 s1 where r1: "reserve e ?a s = (r1, s1)" by (cases "reserve e ?a s")
  have b1: "asMemoryPool (pool s1) = asMemoryPool (pool s)" using reserve_base [of e ?a s] r1 by simp
  let ?s2 = "s1\<lparr>allocator := allocator s1 @ [allocateBytes ?a (alignment (pool s1))]\<rparr>"
  obtain r3 s3 where r3: "release e ?a ?s2 = (r3, s3)" by (cases "release e ?a ?s2")
  have b3: "asMemoryPool (pool s3) = asMemoryPool (pool s)"
    using release_base [of e ?a ?s2] r3 b1 by simp
  show ?thesis using True r1 b1 r3 b3
    by (cases r1; cases r3) (simp_all add: allocate_def checkMemoryAllocation_def Let_def)
qed

lemma reallocate_base:
  "asMemoryPool (pool (snd (reallocate e p sz newSize newP s))) = asMemoryPool (pool s)"
proof (cases "memoryAllocationAllowed e (asMemoryPool (pool s))")
  case False
  then show ?thesis by (simp add: reallocate_def checkMemoryAllocation_def)
next
  case True
  let ?aO = "sizeAlign (pool s) sz" and ?aN = "sizeAlign (pool s) newSize"
  obtain r1 s1 where r1: "reserve e ?aN s = (r1, s1)" by (cases "reserve e ?aN s")
  have b1: "asMemoryPool (pool s1) = asMemoryPool (pool s)" using reserve_base [of e ?aN s] r1 by simp
  let ?s2 = "s1\<lparr>allocator := allocator s1 @ [allocateBytes ?aN (alignment (pool s1))]\<rparr>"
  let ?s3 = "?s2\<lparr>allocator := allocator ?s2 @ [memcpy newP p (min sz newSize)]\<rparr>"
  obtain rf sf where rf: "free e p ?aO ?s2 = (rf, sf)" by (cases "free e p ?aO ?s2")
  have bf: "asMemoryPool (pool sf) = asMemoryPool (pool s)"
    using free_base [of e p ?aO ?s2] rf b1 by simp
  obtain rr sr where rr: "release e ?aN sf = (rr, sr)" by (cases "release e ?aN sf")
  have br: "asMemoryPool (pool sr) = asMemoryPool (pool s)"
    using release_base [of e ?aN sf] rr bf by simp
  obtain rg sg where rg: "free e p ?aO ?s3 = (rg, sg)" by (cases "free e p ?aO ?s3")
  have bg: "asMemoryPool (pool sg) = asMemoryPool (pool s)"
    using free_base [of e p ?aO ?s3] rg b1 by simp
  show ?thesis using True r1 b1 rf bf rr br rg bg
    by (cases r1; cases rf; cases rr; cases rg)
       (simp_all add: reallocate_def checkMemoryAllocation_def Let_def)
qed

lemma ctor_leaf_root: "\<exists>x. MemoryPool_ctor nm kLeaf None options = Threw x"
  by (simp add: MemoryPool_ctor_def split: outcome.splits)

lemma ctor_fields:
  assumes "MemoryPoolImpl_ctor nm knd par cb options h = Returned b"
  shows "kind b = knd" and "parent b = par" and "parent b = None \<longrightarrow> kind b = kAggregate"
proof -
  obtain m where m: "MemoryPool_ctor nm knd par options = Returned m"
    using assms by (cases "MemoryPool_ctor nm knd par options") (simp_all add: MemoryPoolImpl_ctor_def)
  then have f: "kind m = knd" "parent m = par" "par \<noteq> None \<or> knd = kAggregate"
    by (auto simp: MemoryPool_ctor_def split: outcome.splits if_splits)
  have "kind b = kind m \<and> parent b = parent m"
    using assms m by (auto simp: MemoryPoolImpl_ctor_def split: option.splits)
  with f show "kind b = knd" and "parent b = par" and "parent b = None \<longrightarrow> kind b = kAggregate"
    by auto
qed

lemma exampleHeap_roots: "rootsAggregate exampleHeap"
  unfolding exampleHeap_def
  by (intro rootsAggregate_upd rootsAggregate_empty) (simp_all add: ex_defs)

text \<open>
  C9. Constructing a pool of kind leaf without a parent fails. A constructed pool has the
  kind and the parent it was constructed with, so a pool without a parent is an aggregate
  pool. No operation changes this: \<open>addChild\<close>, \<open>dropChild\<close> and the destruction keep every
  pool without a parent an aggregate pool, and the accounting operations leave the
  base-class fields of the pool, its kind and parent among them, as they are.
\<close>

theorem roots_are_aggregate:
  "(\<exists>x. MemoryPool_ctor nm kLeaf None options = Threw x) \<and>
   (\<exists>x. MemoryPoolImpl_ctor nm kLeaf None cb options h = Threw x) \<and>
   (\<forall>b. MemoryPoolImpl_ctor nm knd par cb options h = Returned b \<longrightarrow>
        kind b = knd \<and> parent b = par \<and> (parent b = None \<longrightarrow> kind b = kAggregate)) \<and>
   (rootsAggregate h \<longrightarrow>
      rootsAggregate (snd (addChild e this cn ck newAddr h)) \<and>
      rootsAggregate (snd (dropChild e this child h)) \<and>
      rootsAggregate (snd (destroy e this h))) \<and>
   asMemoryPool (pool (snd (reserve e sz s))) = asMemoryPool (pool s) \<and>
   asMemoryPool (pool (snd (release e sz s))) = asMemoryPool (pool s) \<and>
   asMemoryPool (pool (snd (allocate e sz buffer s))) = asMemoryPool (pool s) \<and>
   asMemoryPool (pool (snd (free e p sz s))) = asMemoryPool (pool s) \<and>
   asMemoryPool (pool (snd (reallocate e p sz newSize newP s))) = asMemoryPool (pool s)"
proof -
  have 1: "\<exists>x. MemoryPool_ctor nm kLeaf None options = Threw x" by (rule ctor_leaf_root)
  then have 2: "\<exists>x. MemoryPoolImpl_ctor nm kLeaf None cb options h = Threw x"
    by (auto simp: MemoryPoolImpl_ctor_def)
  have 3: "\<forall>b. MemoryPoolImpl_ctor nm knd par cb options h = Returned b \<longrightarrow>
        kind b = knd \<and> parent b = par \<and> (parent b = None \<longrightarrow> kind b = kAggregate)"
  proof (intro allI impI)
    fix b assume b: "MemoryPoolImpl_ctor nm knd par cb options h = Returned b"
    show "kind b = knd \<and> parent b = par \<and> (parent b = None \<longrightarrow> kind b = kAggregate)"
      using ctor_fields [OF b] by simp
  qed
  have 4: "rootsAggregate h \<longrightarrow>
      rootsAggregate (snd (addChild e this cn ck newAddr h)) \<and>
      rootsAggregate (snd (dropChild e this child h)) \<and>
      rootsAggregate (snd (destroy e this h))"
    using addChild_roots dropChild_roots destroy_roots by blast
  show ?thesis
    using 1 2 3 4 reserve_base release_base allocate_base free_base reallocate_base
    by (intro conjI)
qed

theorem roots_are_aggregate_witness:
  "rootsAggregate exampleHeap \<and>
   fst (addChild (exampleEnv False) 0 ''other'' kLeaf 2 exampleHeap) = Returned 2 \<and>
   rootsAggregate (snd (addChild (exampleEnv False) 0 ''other'' kLeaf 2 exampleHeap)) \<and>
   fst (dropChild (exampleEnv False) 0 1 exampleHeap) = Returned () \<and>
   rootsAggregate (snd (dropChild (exampleEnv False) 0 1 exampleHeap)) \<and>
   fst (destroy (exampleEnv False) 1 exampleHeap) = Returned () \<and>
   rootsAggregate (snd (destroy (exampleEnv False) 1 exampleHeap)) \<and>
   MemoryPoolImpl_ctor ''leaf'' kLeaf (Some 0) None \<lparr>optAlignment = 16, optCapacity = None\<rparr>
     [0 \<mapsto> rootPool] = Returned leafPool \<and>
   kind leafPool = kLeaf \<and> parent leafPool = Some 0"
proof -
  note t = roots_are_aggregate [of "''leaf''" "\<lparr>optAlignment = 16, optCapacity = None\<rparr>" None
      "[0 \<mapsto> rootPool]" kLeaf "Some 0"]
  have c: "MemoryPoolImpl_ctor ''leaf'' kLeaf (Some 0) None \<lparr>optAlignment = 16, optCapacity = None\<rparr>
     [0 \<mapsto> rootPool] = Returned leafPool"
    by (simp add: MemoryPoolImpl_ctor_def MemoryPool_ctor_def alignmentCheck_def
          MemoryUsageTracker_addChild_def ex_defs)
  from t c have k: "kind leafPool = kLeaf \<and> parent leafPool = Some 0" by blast
  note u = roots_are_aggregate [of _ _ _ exampleHeap _ _ "exampleEnv False"]
  have a: "rootsAggregate (snd (addChild (exampleEnv False) 0 ''other'' kLeaf 2 exampleHeap))"
    using u [of _ _ _ _ _ 0 "''other''" kLeaf 2] exampleHeap_roots by blast
  have d: "rootsAggregate (snd (dropChild (exampleEnv False) 0 1 exampleHeap))"
    using u [of _ _ _ _ _ 0 _ _ _ 1] exampleHeap_roots by blast
  have x: "rootsAggregate (snd (destroy (exampleEnv False) 1 exampleHeap))"
    using u [of _ _ _ _ _ 1] exampleHeap_roots by blast
  have f1: "fst (addChild (exampleEnv False) 0 ''other'' kLeaf 2 exampleHeap) = Returned 2"
    by (simp add: addChild_def genChild_def MemoryPoolImpl_ctor_def MemoryPool_ctor_def
          alignmentCheck_def checkPoolManagement_def asMemoryPool_def ex_defs)
  have f2: "fst (dropChild (exampleEnv False) 0 1 exampleHeap) = Returned ()"
    by (simp add: dropChild_def checkPoolManagement_def asMemoryPool_def ex_defs)
  have f3: "fst (destroy (exampleEnv False) 1 exampleHeap) = Returned ()"
    by (simp add: destroy_def MemoryPoolImpl_dtor_def MemoryPool_dtor_def dropChild_def
          checkPoolManagement_def asMemoryPool_def ex_defs)
  show ?thesis using exampleHeap_roots a d x c k f1 f2 f3 by simp
qed

end
